theory Spec2Isabelle
  imports Main "HOL-Library.Sublist"
begin

section \<open>JavaScript values\<close>

text \<open>
  The data source is a parsed JSON value. The validator also stores \<open>undefined\<close> on its
  context stack, so the value type has it next to the JSON constructors. An object is the
  list of its own properties in the order \<open>Object.keys\<close> enumerates them. The code never
  inspects the numeric value of a number, only its type and its truthiness.

  Members inherited from the engine's built-in prototypes (\<open>toString\<close>, \<open>constructor\<close>,
  the array and string methods) lie outside this data model: JSON data has own properties
  only, and the model reads those, plus \<open>length\<close> and the indices of arrays and strings.
\<close>

datatype jsval =
    JUndefined
  | JNull
  | JBool bool
  | JNum int
  | JStr string
  | JArr "jsval list"
  | JObj "(string \<times> jsval) list"

datatype error = TypeError

text \<open>\<open>typeof v\<close>: note that \<open>typeof null\<close> and \<open>typeof []\<close> are both \<open>"object"\<close>.\<close>

fun typeof :: "jsval \<Rightarrow> string" where
  "typeof JUndefined = ''undefined''"
| "typeof JNull = ''object''"
| "typeof (JBool b) = ''boolean''"
| "typeof (JNum n) = ''number''"
| "typeof (JStr s) = ''string''"
| "typeof (JArr xs) = ''object''"
| "typeof (JObj kvs) = ''object''"

fun isArray :: "jsval \<Rightarrow> bool" where
  "isArray (JArr xs) = True"
| "isArray v = False"

text \<open>Truthiness, as \<open>&&\<close> tests it.\<close>

fun truthy :: "jsval \<Rightarrow> bool" where
  "truthy JUndefined = False"
| "truthy JNull = False"
| "truthy (JBool b) = b"
| "truthy (JNum n) = (n \<noteq> 0)"
| "truthy (JStr s) = (s \<noteq> [])"
| "truthy (JArr xs) = True"
| "truthy (JObj kvs) = True"

fun nullish :: "jsval \<Rightarrow> bool" where
  "nullish JUndefined = True"
| "nullish JNull = True"
| "nullish v = False"

text \<open>\<open>String(i)\<close> for an array index: its decimal digits.\<close>

definition digit :: "nat \<Rightarrow> char" where
  "digit d = char_of (48 + d)"

fun decimal :: "nat \<Rightarrow> string" where
  "decimal n = (if n < 10 then [digit n] else decimal (n div 10) @ [digit (n mod 10)])"

declare decimal.simps [simp del]

text \<open>
  \<open>v[k]\<close> on a value that is neither \<open>null\<close> nor \<open>undefined\<close>: an own property of an
  object, an element or the length of an array, a character or the length of a string,
  and \<open>undefined\<close> for everything else.
\<close>

fun getMember :: "jsval \<Rightarrow> string \<Rightarrow> jsval" where
  "getMember (JObj kvs) k = (case map_of kvs k of Some v \<Rightarrow> v | None \<Rightarrow> JUndefined)"
| "getMember (JArr xs) k =
     (case find (\<lambda>i. decimal i = k) [0..<length xs] of
        Some i \<Rightarrow> xs ! i
      | None \<Rightarrow> if k = ''length'' then JNum (int (length xs)) else JUndefined)"
| "getMember (JStr s) k =
     (case find (\<lambda>i. decimal i = k) [0..<length s] of
        Some i \<Rightarrow> JStr [s ! i]
      | None \<Rightarrow> if k = ''length'' then JNum (int (length s)) else JUndefined)"
| "getMember v k = JUndefined"

text \<open>\<open>obj.k\<close> with no guard before it: reading a property of \<open>null\<close> or \<open>undefined\<close> throws.\<close>

definition getProp :: "jsval \<Rightarrow> string \<Rightarrow> error + jsval" where
  "getProp obj k = (if nullish obj then Inl TypeError else Inr (getMember obj k))"

text \<open>\<open>k in v\<close>, used by the code only on values whose \<open>typeof\<close> is \<open>"object"\<close>.\<close>

fun hasProperty :: "jsval \<Rightarrow> string \<Rightarrow> bool" where
  "hasProperty (JObj kvs) k = (k \<in> set (map fst kvs))"
| "hasProperty (JArr xs) k = (k \<in> set (map decimal [0..<length xs]) \<or> k = ''length'')"
| "hasProperty v k = False"

text \<open>\<open>Object.keys(v)\<close>: it throws on \<open>null\<close> and \<open>undefined\<close>.\<close>

fun objectKeys :: "jsval \<Rightarrow> error + string list" where
  "objectKeys JUndefined = Inl TypeError"
| "objectKeys JNull = Inl TypeError"
| "objectKeys (JObj kvs) = Inr (map fst kvs)"
| "objectKeys (JArr xs) = Inr (map decimal [0..<length xs])"
| "objectKeys (JStr s) = Inr (map decimal [0..<length s])"
| "objectKeys v = Inr []"

text \<open>\<open>value[0]\<close> of an array.\<close>

definition firstElement :: "jsval \<Rightarrow> jsval" where
  "firstElement v = getMember v ''0''"

fun arrayLength :: "jsval \<Rightarrow> nat" where
  "arrayLength (JArr xs) = length xs"
| "arrayLength v = 0"

section \<open>Field extractor\<close>

datatype fieldType = Simple | ArraySimple | LoopStart | LoopEnd | ObjectStart | ObjectEnd

text \<open>
  A field descriptor. The flags \<open>isLoopStart\<close>, \<open>isLoopEnd\<close>, \<open>isObjectStart\<close> and
  \<open>isObjectEnd\<close> are present (and true) on the descriptor of that type only; an absent
  flag reads as false.
\<close>

record fieldDescriptor =
  name :: string
  label :: string
  placeholder :: string
  indentLevel :: nat
  type :: fieldType
  isLoopStart :: bool
  isLoopEnd :: bool
  isObjectStart :: bool
  isObjectEnd :: bool

definition mkField :: "string \<Rightarrow> string \<Rightarrow> string \<Rightarrow> nat \<Rightarrow> fieldType \<Rightarrow> fieldDescriptor" where
  "mkField n l p i t =
     \<lparr>name = n, label = l, placeholder = p, indentLevel = i, type = t,
      isLoopStart = (t = LoopStart), isLoopEnd = (t = LoopEnd),
      isObjectStart = (t = ObjectStart), isObjectEnd = (t = ObjectEnd)\<rparr>"

text \<open>
  \<open>keys.forEach(f)\<close> where \<open>f\<close> appends descriptors to \<open>fields\<close> or throws: the
  descriptors in order, or the first exception.
\<close>

fun forEachFields :: "('a \<Rightarrow> error + fieldDescriptor list) \<Rightarrow> 'a list \<Rightarrow> error + fieldDescriptor list" where
  "forEachFields f [] = Inr []"
| "forEachFields f (x # xs) =
     (case f x of
        Inl e \<Rightarrow> Inl e
      | Inr ys \<Rightarrow> (case forEachFields f xs of Inl e \<Rightarrow> Inl e | Inr zs \<Rightarrow> Inr (ys @ zs)))"

lemma forEachFields_cong [fundef_cong]:
  "xs = ys \<Longrightarrow> (\<And>x. x \<in> set ys \<Longrightarrow> f x = g x) \<Longrightarrow> forEachFields f xs = forEachFields g ys"
  by (induction ys arbitrary: xs) (auto split: sum.splits)

lemma size_getMember_map_of:
  "(case map_of kvs k of Some v \<Rightarrow> v | None \<Rightarrow> JUndefined) = v \<Longrightarrow> size v < Suc (size_list (size_prod (\<lambda>_. 0) size) kvs)"
  by (induction kvs) (auto split: if_splits)

lemma size_getMember: "typeof v = ''object'' \<Longrightarrow> v \<noteq> JNull \<Longrightarrow> size (getMember v k) < size v"
proof (cases v)
  case (JObj kvs)
  then show ?thesis using size_getMember_map_of [of kvs k, OF refl] by simp
next
  case (JArr xs)
  have "i < length xs \<Longrightarrow> size (xs ! i) < Suc (size_list size xs)" for i
    using size_list_estimation' [of "xs ! i" xs "size (xs ! i)" size] by simp
  with JArr show ?thesis
    by (auto split: option.splits dest!: find_Some_iff [THEN iffD1])
qed auto

text \<open>
  \<open>processValue(value, key, parentPath, indentLevel)\<close>, with \<open>level\<close> for the
  parameter \<open>indentLevel\<close>. The loop branch tests
  \<open>typeof value[0] === "object"\<close>, which holds for \<open>null\<close> too, and then calls
  \<open>Object.keys\<close> on it. It passes \<open>key\<close> as the parent path of the loop body, where the
  object branch passes \<open>currentPath\<close>.
\<close>

function processValue :: "jsval \<Rightarrow> string \<Rightarrow> string \<Rightarrow> nat \<Rightarrow> error + fieldDescriptor list" where
  "processValue v key parentPath level =
     (let currentPath = (if parentPath \<noteq> [] then parentPath @ ''.'' @ key else key);
          indent = concat (replicate level ''  '')
      in
      if v = JNull \<or> v = JUndefined then
        Inr [mkField currentPath (indent @ key) (''{{'' @ key @ ''}}'') level Simple]
      else if isArray v then
        (if arrayLength v > 0 \<and> typeof (firstElement v) = ''object'' then
           (let firstItem = firstElement v in
            case objectKeys firstItem of
              Inl e \<Rightarrow> Inl e
            | Inr childKeys \<Rightarrow>
               (case forEachFields
                       (\<lambda>childKey. processValue (getMember firstItem childKey) childKey key
                                     (level + 1))
                       childKeys of
                  Inl e \<Rightarrow> Inl e
                | Inr body \<Rightarrow>
                    Inr ([mkField (''#'' @ currentPath) (indent @ key @ '' (Loop Start)'')
                            (''{{#'' @ key @ ''}}'') level LoopStart]
                         @ body @
                         [mkField (''/'' @ currentPath) (indent @ key @ '' (Loop End)'')
                            (''{{/'' @ key @ ''}}'') level LoopEnd])))
         else
           Inr [mkField currentPath (indent @ key) (''{{'' @ key @ ''}}'') level
                  ArraySimple])
      else if typeof v = ''object'' then
        (case objectKeys v of
           Inl e \<Rightarrow> Inl e
         | Inr childKeys \<Rightarrow>
            (case forEachFields
                    (\<lambda>childKey. processValue (getMember v childKey) childKey currentPath
                                  (level + 1))
                    childKeys of
               Inl e \<Rightarrow> Inl e
             | Inr body \<Rightarrow>
                 Inr ([mkField (''#'' @ currentPath) (indent @ key @ '' (Object Start)'')
                         (''{{#'' @ key @ ''}}'') level ObjectStart]
                      @ body @
                      [mkField (''/'' @ currentPath) (indent @ key @ '' (Object End)'')
                         (''{{/'' @ key @ ''}}'') level ObjectEnd])))
      else
        Inr [mkField currentPath (indent @ key) (''{{'' @ key @ ''}}'') level Simple])"
  by pat_completeness auto

lemma size_firstElement: "isArray v \<Longrightarrow> size (firstElement v) < size v"
  unfolding firstElement_def by (cases v) (simp_all only: isArray.simps size_getMember typeof.simps jsval.distinct not_False_eq_True)

termination processValue
proof (relation "measure (\<lambda>(v, key, parentPath, level). size v)", goal_cases)
  case 1
  show ?case by simp
next
  case (2 v key parentPath level currentPath indent firstItem childKeys childKey)
  then have "firstItem \<noteq> JNull" by auto
  with 2 have "size (getMember firstItem childKey) < size firstItem"
    by (intro size_getMember) auto
  moreover from 2 have "size firstItem < size v" by (auto intro: size_firstElement)
  ultimately show ?case by simp
next
  case (3 v key parentPath level currentPath indent childKeys childKey)
  then show ?case by (auto intro: size_getMember)
qed

declare processValue.simps [simp del]

definition processModel :: "jsval \<Rightarrow> error + fieldDescriptor list" where
  "processModel obj =
     (case objectKeys obj of
        Inl e \<Rightarrow> Inl e
      | Inr keys \<Rightarrow> forEachFields (\<lambda>key. processValue (getMember obj key) key [] 0) keys)"

definition extractFieldsFromJson :: "jsval \<Rightarrow> error + fieldDescriptor list" where
  "extractFieldsFromJson data =
     (if isArray data then
        (if arrayLength data > 0 \<and> typeof (firstElement data) = ''object''
         then processModel (firstElement data)
         else Inr [])
      else if typeof data = ''object'' \<and> data \<noteq> JNull then
        (if truthy (getMember data ''model'') \<and> typeof (getMember data ''model'') = ''object''
         then processModel (getMember data ''model'')
         else processModel data)
      else Inr [])"

section \<open>Nested-path lookup\<close>

text \<open>\<open>path.split(".")\<close>: always at least one segment.\<close>

fun splitDot :: "string \<Rightarrow> string list" where
  "splitDot [] = [[]]"
| "splitDot (c # cs) =
     (if c = CHR ''.'' then [] # splitDot cs
      else (c # hd (splitDot cs)) # tl (splitDot cs))"

text \<open>The \<open>for (const key of keys)\<close> loop of \<open>getNestedValue\<close>, on the keys still to read.\<close>

fun descend :: "jsval \<Rightarrow> string list \<Rightarrow> jsval" where
  "descend current [] = current"
| "descend current (key # keys) =
     (if current = JNull \<or> current = JUndefined then JUndefined
      else descend (getMember current key) keys)"

text \<open>
  \<open>getNestedValue(obj, path)\<close>. Its first statement reads \<open>obj.model\<close>, which throws when
  \<open>obj\<close> is \<open>null\<close> or \<open>undefined\<close>.
\<close>

definition getNestedValue :: "jsval \<Rightarrow> string \<Rightarrow> error + jsval" where
  "getNestedValue obj path =
     (case getProp obj ''model'' of
        Inl e \<Rightarrow> Inl e
      | Inr model \<Rightarrow>
          (let data = (if truthy model \<and> typeof model = ''object'' then model else obj)
           in Inr (descend data (splitDot path))))"

section \<open>Template validator\<close>

subsection \<open>The regular-expression scan\<close>

record occurrence =
  full :: string
  field :: string
  position :: nat

text \<open>
  \<open>String.prototype.trim\<close>: the white space and line terminators among the characters
  of \<open>char\<close> (code units up to 255).
\<close>

definition isWhiteSpace :: "char \<Rightarrow> bool" where
  "isWhiteSpace c = (of_char c \<in> {9, 10, 11, 12, 13, 32, 160 :: nat})"

definition trim :: "string \<Rightarrow> string" where
  "trim s = rev (dropWhile isWhiteSpace (rev (dropWhile isWhiteSpace s)))"

text \<open>
  One attempt of \<open>/\{\{([^}]+)\}\}/\<close> at the start of \<open>t\<close>: two opening braces, the
  longest run of characters other than \<open>}\<close>, which must not be empty, and two closing
  braces. A shorter run cannot match, since the character after it is not \<open>}\<close>. The
  result is the captured group and the text after the match.
\<close>

definition matchAt :: "string \<Rightarrow> (string \<times> string) option" where
  "matchAt t =
     (if take 2 t = ''{{'' then
        (let inner = takeWhile (\<lambda>c. c \<noteq> CHR ''}'') (drop 2 t);
             after = dropWhile (\<lambda>c. c \<noteq> CHR ''}'') (drop 2 t)
         in if inner \<noteq> [] \<and> take 2 after = ''}}'' then Some (inner, drop 2 after) else None)
      else None)"

lemma matchAt_shorter: "matchAt t = Some (inner, rest) \<Longrightarrow> length rest < length t"
proof -
  assume m: "matchAt t = Some (inner, rest)"
  have "length (dropWhile (\<lambda>c. c \<noteq> CHR ''}'') (drop 2 t)) \<le> length (drop 2 t)"
    by (rule length_dropWhile_le)
  moreover from m have "take 2 t = ''{{''"
    by (simp add: matchAt_def split: if_splits)
  then have "length (take 2 t) = 2"
    by simp
  then have "2 \<le> length t"
    by simp
  ultimately show ?thesis using m
    by (auto simp: matchAt_def Let_def split: if_splits)
qed

text \<open>
  The \<open>while ((match = placeholderRegex.exec(documentText)) !== null)\<close> loop: \<open>pos\<close> is
  \<open>lastIndex\<close> and \<open>t\<close> the text from there on. The global regular expression looks for
  the leftmost match at or after \<open>lastIndex\<close> and resumes after it.
\<close>

function scanPlaceholders :: "nat \<Rightarrow> string \<Rightarrow> occurrence list" where
  "scanPlaceholders pos t =
     (if t = [] then []
      else
        (case matchAt t of
           Some (inner, rest) \<Rightarrow>
             \<lparr>full = ''{{'' @ inner @ ''}}'', field = trim inner, position = pos\<rparr>
             # scanPlaceholders (pos + length inner + 4) rest
         | None \<Rightarrow> scanPlaceholders (pos + 1) (tl t)))"
  by pat_completeness auto
termination
  by (relation "measure (\<lambda>(pos, t). length t)") (auto dest: matchAt_shorter)

declare scanPlaceholders.simps [simp del]

subsection \<open>The context-stack scan\<close>

text \<open>
  The two lists of the report; the validator's running state adds the two stacks to
  them, the report adds the count. Both stacks are JavaScript arrays: \<open>push\<close> appends,
  \<open>pop\<close> removes the last element.
\<close>

record messages =
  issues :: "string list"
  warnings :: "string list"

record report = messages +
  placeholderCount :: nat

record validatorState = messages +
  contextStack :: "jsval list"
  loopStack :: "string list"

text \<open>\<open>contextStack[contextStack.length - 1]\<close>: \<open>undefined\<close> on an empty array.\<close>

definition topContext :: "jsval list \<Rightarrow> jsval" where
  "topContext st = (if st = [] then JUndefined else last st)"

definition startsWith :: "string \<Rightarrow> string \<Rightarrow> bool" where
  "startsWith s p = (take (length p) s = p)"

definition includesChar :: "string \<Rightarrow> char \<Rightarrow> bool" where
  "includesChar s c = (c \<in> set s)"

definition missingDataIssue :: "string \<Rightarrow> string \<Rightarrow> string" where
  \<open>missingDataIssue fld fieldName =
     ''Loop/Section marker "{{'' @ fld @ ''}}" references missing data: "'' @ fieldName @ ''"''\<close>

definition notLoopWarning :: "string \<Rightarrow> string \<Rightarrow> jsval \<Rightarrow> string" where
  \<open>notLoopWarning fld fieldName v =
     ''Loop marker "{{'' @ fld @ ''}}" points to "'' @ fieldName
     @ ''" which is not an array or object (it'' @ [CHR 0x27] @ ''s a '' @ typeof v
     @ ''). This may cause unexpected behavior.''\<close>

definition noStartWarning :: "string \<Rightarrow> string" where
  \<open>noStartWarning fld =
     ''Loop end marker "{{'' @ fld @ ''}}" found without a matching start marker.''\<close>

definition mismatchWarning :: "string \<Rightarrow> string \<Rightarrow> string" where
  \<open>mismatchWarning fld expectedLoop =
     ''Loop end marker "{{'' @ fld @ ''}}" doesn'' @ [CHR 0x27]
     @ ''t match the most recent loop start "{{#'' @ expectedLoop
     @ ''}}". Loops may be improperly nested.''\<close>

definition loopFieldIssue :: "string \<Rightarrow> string \<Rightarrow> string" where
  \<open>loopFieldIssue fld loopName =
     ''Placeholder "{{'' @ fld @ ''}}" in loop "{{#'' @ loopName
     @ ''}}" has no corresponding field in the loop items.''\<close>

definition noDataIssue :: "string \<Rightarrow> string" where
  \<open>noDataIssue fld =
     ''Placeholder "{{'' @ fld
     @ ''}}" has no corresponding data. Please ensure your data source includes a "'' @ fld
     @ ''" field.''\<close>

definition nullWarning :: "string \<Rightarrow> string" where
  \<open>nullWarning fld = ''Placeholder "{{'' @ fld @ ''}}" has a null value in the data source.''\<close>

definition unclosedWarning :: "string \<Rightarrow> string" where
  \<open>unclosedWarning loopName =
     ''Loop "{{#'' @ loopName @ ''}}" was started but never closed with "{{/'' @ loopName
     @ ''}}".''\<close>

definition noPlaceholdersWarning :: string where
  "noPlaceholdersWarning =
     ''No template placeholders found in the document. The document will be generated as-is without any data population.''"

definition addIssue :: "string \<Rightarrow> validatorState \<Rightarrow> validatorState" where
  "addIssue m s = s\<lparr>issues := issues s @ [m]\<rparr>"

definition addWarning :: "string \<Rightarrow> validatorState \<Rightarrow> validatorState" where
  "addWarning m s = s\<lparr>warnings := warnings s @ [m]\<rparr>"

definition pushScope :: "jsval \<Rightarrow> string \<Rightarrow> validatorState \<Rightarrow> validatorState" where
  "pushScope ctx loopName s =
     s\<lparr>contextStack := contextStack s @ [ctx], loopStack := loopStack s @ [loopName]\<rparr>"

definition popScope :: "validatorState \<Rightarrow> validatorState" where
  "popScope s = s\<lparr>contextStack := butlast (contextStack s), loopStack := butlast (loopStack s)\<rparr>"

text \<open>The branch for \<open>{{#name}}\<close>.\<close>

definition openMarker :: "validatorState \<Rightarrow> string \<Rightarrow> error + validatorState" where
  "openMarker s fld =
     (let fieldName = drop 1 fld;
          currentContext = topContext (contextStack s)
      in case getNestedValue currentContext fieldName of
           Inl e \<Rightarrow> Inl e
         | Inr v \<Rightarrow>
             if v = JUndefined then
               Inr (pushScope JUndefined fieldName (addIssue (missingDataIssue fld fieldName) s))
             else if isArray v then
               (let itemContext = (if arrayLength v > 0 then firstElement v else JObj [])
                in Inr (pushScope itemContext fieldName s))
             else if typeof v = ''object'' \<and> v \<noteq> JNull then
               Inr (pushScope v fieldName s)
             else
               Inr (pushScope v fieldName (addWarning (notLoopWarning fld fieldName v) s)))"

text \<open>The branch for \<open>{{/name}}\<close>.\<close>

definition closeMarker :: "validatorState \<Rightarrow> string \<Rightarrow> validatorState" where
  "closeMarker s fld =
     (let fieldName = drop 1 fld
      in if loopStack s = [] then addWarning (noStartWarning fld) s
         else if last (loopStack s) \<noteq> fieldName then
           addWarning (mismatchWarning fld (last (loopStack s))) s
         else popScope s)"

text \<open>The branch for a regular field.\<close>

definition plainField :: "jsval \<Rightarrow> validatorState \<Rightarrow> string \<Rightarrow> error + validatorState" where
  "plainField data s fld =
     (let currentContext = topContext (contextStack s)
      in if currentContext = JUndefined then Inr s
         else
           (case (if includesChar fld CHR ''.'' then getNestedValue currentContext fld
                  else if typeof currentContext = ''object'' \<and> currentContext \<noteq> JNull
                          \<and> hasProperty currentContext fld
                       then Inr (getMember currentContext fld)
                       else getNestedValue data fld) of
              Inl e \<Rightarrow> Inl e
            | Inr v \<Rightarrow>
                if v = JUndefined then
                  (if loopStack s \<noteq> [] then
                     (if typeof currentContext = ''object'' \<and> currentContext \<noteq> JNull then
                        (if \<not> hasProperty currentContext fld
                         then Inr (addIssue (loopFieldIssue fld (last (loopStack s))) s)
                         else Inr s)
                      else Inr s)
                   else
                     (case getNestedValue data fld of
                        Inl e \<Rightarrow> Inl e
                      | Inr rootValue \<Rightarrow>
                          if rootValue = JUndefined then Inr (addIssue (noDataIssue fld) s)
                          else Inr s))
                else if v = JNull then Inr (addWarning (nullWarning fld) s)
                else Inr s))"

text \<open>The callback of \<open>placeholders.forEach\<close>.\<close>

definition stepPlaceholder :: "jsval \<Rightarrow> validatorState \<Rightarrow> occurrence \<Rightarrow> error + validatorState" where
  "stepPlaceholder data s p =
     (if startsWith (field p) ''#'' then openMarker s (field p)
      else if startsWith (field p) ''/'' then Inr (closeMarker s (field p))
      else plainField data s (field p))"

fun forEachPlaceholder :: "jsval \<Rightarrow> validatorState \<Rightarrow> occurrence list \<Rightarrow> error + validatorState" where
  "forEachPlaceholder data s [] = Inr s"
| "forEachPlaceholder data s (p # ps) =
     (case stepPlaceholder data s p of
        Inl e \<Rightarrow> Inl e
      | Inr s' \<Rightarrow> forEachPlaceholder data s' ps)"

definition initialState :: "jsval \<Rightarrow> validatorState" where
  "initialState data = \<lparr>issues = [], warnings = [], contextStack = [data], loopStack = []\<rparr>"

text \<open>
  \<open>validateTemplate(documentText, data)\<close>. The function is \<open>async\<close>: an exception thrown
  in its body rejects the promise it returns, which is the \<open>Inl\<close> result here.
\<close>

definition validateTemplate :: "string \<Rightarrow> jsval \<Rightarrow> error + report" where
  "validateTemplate documentText data =
     (let placeholders = scanPlaceholders 0 documentText
      in if length placeholders = 0 then
           Inr \<lparr>issues = [], warnings = [noPlaceholdersWarning], placeholderCount = 0\<rparr>
         else
           (case forEachPlaceholder data (initialState data) placeholders of
              Inl e \<Rightarrow> Inl e
            | Inr s \<Rightarrow>
                Inr \<lparr>issues = issues s,
                     warnings = warnings s @ map unclosedWarning (loopStack s),
                     placeholderCount = length placeholders\<rparr>))"

section \<open>Notions used to state the properties\<close>

text \<open>
  The stack-based bracket matcher: a start descriptor pushes its kind and its path (the
  name without the \<open>#\<close>); an end descriptor needs a stack whose top has the matching
  kind and the same path (the name without the \<open>/\<close>), and pops it; at the end the
  stack must be empty.
\<close>

fun closes :: "fieldType \<Rightarrow> fieldType \<Rightarrow> bool" where
  "closes LoopStart LoopEnd = True"
| "closes ObjectStart ObjectEnd = True"
| "closes s e = False"

fun bracketMatcher :: "(fieldType \<times> string) list \<Rightarrow> fieldDescriptor list \<Rightarrow> bool" where
  "bracketMatcher stack [] = (stack = [])"
| "bracketMatcher stack (d # ds) =
     (if type d = LoopStart \<or> type d = ObjectStart then
        bracketMatcher ((type d, drop 1 (name d)) # stack) ds
      else if type d = LoopEnd \<or> type d = ObjectEnd then
        (case stack of
           [] \<Rightarrow> False
         | (t, p) # stack' \<Rightarrow> closes t (type d) \<and> p = drop 1 (name d) \<and> bracketMatcher stack' ds)
      else bracketMatcher stack ds)"

text \<open>The prefix that marks a scope descriptor.\<close>

fun marker :: "fieldType \<Rightarrow> string" where
  "marker LoopStart = ''#''"
| "marker ObjectStart = ''#''"
| "marker LoopEnd = ''/''"
| "marker ObjectEnd = ''/''"
| "marker Simple = []"
| "marker ArraySimple = []"

text \<open>
  The placeholder grammar of the specification: \<open>{{\<close>, one or more characters other than
  \<open>}\<close>, \<open>}}\<close>; and a text that contains a substring of that form.
\<close>

definition matchesGrammar :: "string \<Rightarrow> bool" where
  "matchesGrammar s =
     (5 \<le> length s \<and> take 2 s = ''{{'' \<and> drop (length s - 2) s = ''}}''
      \<and> CHR ''}'' \<notin> set (take (length s - 4) (drop 2 s)))"

definition containsPlaceholder :: "string \<Rightarrow> bool" where
  "containsPlaceholder text = list_ex matchesGrammar (sublists text)"

text \<open>The first two bindings of \<open>processValue\<close>, named for the proofs.\<close>

definition currentPathOf :: "string \<Rightarrow> string \<Rightarrow> string" where
  "currentPathOf parentPath key = (if parentPath \<noteq> [] then parentPath @ ''.'' @ key else key)"

definition indentOf :: "nat \<Rightarrow> string" where
  "indentOf level = concat (replicate level ''  '')"

text \<open>A run of descriptors that leaves the matcher's stack as it found it.\<close>

definition neutral :: "fieldDescriptor list \<Rightarrow> bool" where
  "neutral ds = (\<forall>stack rest. bracketMatcher stack (ds @ rest) = bracketMatcher stack rest)"

text \<open>
  A descriptor whose placeholder wraps the marker and the last key of the path that its
  name spells out.
\<close>

definition placeholderOfKey :: "fieldDescriptor \<Rightarrow> bool" where
  "placeholderOfKey d =
     (\<exists>parentPath key.
        name d = marker (type d) @ currentPathOf parentPath key
        \<and> placeholder d = ''{{'' @ marker (type d) @ key @ ''}}'')"

definition keyedFrom :: "nat \<Rightarrow> fieldDescriptor list \<Rightarrow> bool" where
  "keyedFrom level ds = (\<forall>d \<in> set ds. placeholderOfKey d \<and> level \<le> indentLevel d)"

definition keyedAt :: "string \<Rightarrow> string \<Rightarrow> nat \<Rightarrow> fieldDescriptor list \<Rightarrow> bool" where
  "keyedAt parentPath key level ds =
     (\<forall>d \<in> set ds. placeholderOfKey d \<and> level \<le> indentLevel d
        \<and> (indentLevel d = level \<longrightarrow>
             name d = marker (type d) @ currentPathOf parentPath key
             \<and> placeholder d = ''{{'' @ marker (type d) @ key @ ''}}''))"

definition keyedTop :: "fieldDescriptor list \<Rightarrow> bool" where
  "keyedTop ds =
     (\<forall>d \<in> set ds. placeholderOfKey d
        \<and> (indentLevel d = 0 \<longrightarrow> placeholder d = ''{{'' @ name d @ ''}}''))"

text \<open>
  A descriptor sequence read as a forest: a leaf descriptor, or a start descriptor, the
  trees of what lies inside the scope, and the end descriptor. Flattening a tree gives
  back the sequence: the start, then everything inside, then the end.
\<close>

datatype descriptorTree =
    Leaf fieldDescriptor
  | Scope fieldDescriptor "descriptorTree list" fieldDescriptor

fun flatten :: "descriptorTree \<Rightarrow> fieldDescriptor list" where
  "flatten (Leaf d) = [d]"
| "flatten (Scope s kids e) = s # concat (map flatten kids) @ [e]"

text \<open>
  The object whose keys are the children of a value: the first element of a non-empty
  array whose first element has type \<open>"object"\<close>, a non-array object itself, and none
  for any other value. \<open>rootItem\<close> is the object whose keys are the top-level fields.
\<close>

definition scopeItem :: "jsval \<Rightarrow> jsval option" where
  "scopeItem v =
     (if isArray v then
        (if arrayLength v > 0 \<and> typeof (firstElement v) = ''object''
         then Some (firstElement v) else None)
      else if typeof v = ''object'' \<and> v \<noteq> JNull then Some v
      else None)"

definition rootItem :: "jsval \<Rightarrow> jsval option" where
  "rootItem data =
     (if isArray data then
        (if arrayLength data > 0 \<and> typeof (firstElement data) = ''object''
         then Some (firstElement data) else None)
      else if typeof data = ''object'' \<and> data \<noteq> JNull then
        (if truthy (getMember data ''model'') \<and> typeof (getMember data ''model'') = ''object''
         then Some (getMember data ''model'') else Some data)
      else None)"

text \<open>
  \<open>nests v level t\<close>: the tree \<open>t\<close> follows the value \<open>v\<close>. A value without
  children has a leaf. A value with children has a scope whose start and end descriptors
  have matching kinds, the same path and the same indent level, and whose subtrees are,
  in order, one for each key of the value's children, one level deeper. The subtrees of a
  scope are the descendants of its path.
\<close>

fun nests :: "jsval \<Rightarrow> nat \<Rightarrow> descriptorTree \<Rightarrow> bool" where
  "nests v level (Leaf d) =
     (scopeItem v = None \<and> (type d = Simple \<or> type d = ArraySimple) \<and> indentLevel d = level)"
| "nests v level (Scope s kids e) =
     (case scopeItem v of
        None \<Rightarrow> False
      | Some item \<Rightarrow>
          (case objectKeys item of
             Inl err \<Rightarrow> False
           | Inr keys \<Rightarrow>
               closes (type s) (type e) \<and> (isArray v \<longleftrightarrow> type s = LoopStart)
               \<and> indentLevel s = level \<and> indentLevel e = level
               \<and> take 1 (name s) = ''#'' \<and> take 1 (name e) = ''/''
               \<and> drop 1 (name s) = drop 1 (name e)
               \<and> list_all2 (\<lambda>k t. nests (getMember item k) (level + 1) t) keys kids))"

text \<open>
  \<open>keyedBy v key t\<close>: in the tree \<open>t\<close> of the value \<open>v\<close> stored under \<open>key\<close>, every
  descriptor's placeholder wraps the marker of its kind and the key of the value it stands
  for, and its name is that marker followed by the key, with or without a parent path and
  a dot before it.
\<close>

definition wrapsKey :: "string \<Rightarrow> fieldDescriptor \<Rightarrow> bool" where
  "wrapsKey key d =
     (placeholder d = ''{{'' @ marker (type d) @ key @ ''}}''
      \<and> (\<exists>parentPath. name d = marker (type d) @ currentPathOf parentPath key))"

fun keyedBy :: "jsval \<Rightarrow> string \<Rightarrow> descriptorTree \<Rightarrow> bool" where
  "keyedBy v key (Leaf d) = (scopeItem v = None \<and> marker (type d) = [] \<and> wrapsKey key d)"
| "keyedBy v key (Scope s kids e) =
     (case scopeItem v of
        None \<Rightarrow> False
      | Some item \<Rightarrow>
          (case objectKeys item of
             Inl err \<Rightarrow> False
           | Inr keys \<Rightarrow>
               marker (type s) = ''#'' \<and> marker (type e) = ''/''
               \<and> wrapsKey key s \<and> wrapsKey key e
               \<and> list_all2 (\<lambda>k t. keyedBy (getMember item k) k t) keys kids))"

text \<open>\<open>grown v key parentPath level t\<close>: the tree of the call \<open>processValue(v, key, parentPath, level)\<close>.\<close>

fun grown :: "jsval \<Rightarrow> string \<Rightarrow> string \<Rightarrow> nat \<Rightarrow> descriptorTree \<Rightarrow> bool" where
  "grown v key parentPath level (Leaf d) =
     (scopeItem v = None
      \<and> d = mkField (currentPathOf parentPath key) (indentOf level @ key) (''{{'' @ key @ ''}}'')
              level (if isArray v then ArraySimple else Simple))"
| "grown v key parentPath level (Scope s kids e) =
     (case scopeItem v of
        None \<Rightarrow> False
      | Some item \<Rightarrow>
          (case objectKeys item of
             Inl err \<Rightarrow> False
           | Inr keys \<Rightarrow>
               s = mkField (''#'' @ currentPathOf parentPath key)
                     (indentOf level @ key @ (if isArray v then '' (Loop Start)'' else '' (Object Start)''))
                     (''{{#'' @ key @ ''}}'') level (if isArray v then LoopStart else ObjectStart)
               \<and> e = mkField (''/'' @ currentPathOf parentPath key)
                     (indentOf level @ key @ (if isArray v then '' (Loop End)'' else '' (Object End)''))
                     (''{{/'' @ key @ ''}}'') level (if isArray v then LoopEnd else ObjectEnd)
               \<and> list_all2
                    (\<lambda>k t. grown (getMember item k) k
                              (if isArray v then key else currentPathOf parentPath key) (level + 1) t)
                    keys kids))"


section \<open>The shape of the extractor's output\<close>

text \<open>
  What a successful call of \<open>processValue\<close> returns: one leaf descriptor, or a start
  descriptor, the descriptors of the children, and the end descriptor.
\<close>

lemma processValue_shape:
  assumes "processValue v key parentPath level = Inr ds"
  obtains
    (leaf) t where "t = Simple \<or> t = ArraySimple"
      "ds = [mkField (currentPathOf parentPath key) (indentOf level @ key)
               (''{{'' @ key @ ''}}'') level t]"
  | (loop) childKeys body where
      "isArray v" "0 < arrayLength v" "typeof (firstElement v) = ''object''"
      "objectKeys (firstElement v) = Inr childKeys"
      "forEachFields
         (\<lambda>childKey. processValue (getMember (firstElement v) childKey) childKey key (level + 1))
         childKeys = Inr body"
      "ds = mkField (''#'' @ currentPathOf parentPath key)
              (indentOf level @ key @ '' (Loop Start)'') (''{{#'' @ key @ ''}}'') level LoopStart
            # body @
            [mkField (''/'' @ currentPathOf parentPath key)
               (indentOf level @ key @ '' (Loop End)'') (''{{/'' @ key @ ''}}'') level LoopEnd]"
  | (object) childKeys body where
      "v \<noteq> JNull" "v \<noteq> JUndefined" "\<not> isArray v" "typeof v = ''object''"
      "objectKeys v = Inr childKeys"
      "forEachFields
         (\<lambda>childKey. processValue (getMember v childKey) childKey
                        (currentPathOf parentPath key) (level + 1))
         childKeys = Inr body"
      "ds = mkField (''#'' @ currentPathOf parentPath key)
              (indentOf level @ key @ '' (Object Start)'') (''{{#'' @ key @ ''}}'') level
              ObjectStart
            # body @
            [mkField (''/'' @ currentPathOf parentPath key)
               (indentOf level @ key @ '' (Object End)'') (''{{/'' @ key @ ''}}'') level
               ObjectEnd]"
  using assms
  by (subst (asm) processValue.simps)
     (auto simp: Let_def currentPathOf_def indentOf_def split: if_splits sum.splits)

text \<open>
  A property that holds of what each call of the callback appends, of the empty list, and
  of concatenations, holds of everything a \<open>forEach\<close> appends.
\<close>

lemma forEachFields_combine:
  assumes "forEachFields f xs = Inr body"
    and "\<And>x ds. x \<in> set xs \<Longrightarrow> f x = Inr ds \<Longrightarrow> Q ds"
    and "Q []"
    and "\<And>as bs. Q as \<Longrightarrow> Q bs \<Longrightarrow> Q (as @ bs)"
  shows "Q body"
  using assms(1,2)
proof (induction xs arbitrary: body)
  case Nil
  then show ?case using assms(3) by simp
next
  case (Cons x xs)
  from Cons.prems(1) obtain ys zs where
    ys: "f x = Inr ys" and zs: "forEachFields f xs = Inr zs" and body: "body = ys @ zs"
    by (auto split: sum.splits)
  have "Q ys" using Cons.prems(2) [of x ys] ys by simp
  moreover have "Q zs"
  proof (rule Cons.IH [OF zs])
    fix y ds assume "y \<in> set xs" "f y = Inr ds"
    then show "Q ds" using Cons.prems(2) [of y ds] by simp
  qed
  ultimately show ?case unfolding body by (rule assms(4))
qed

subsection \<open>Brackets\<close>

lemma neutral_Nil: "neutral []"
  by (simp add: neutral_def)

lemma neutral_append: "neutral as \<Longrightarrow> neutral bs \<Longrightarrow> neutral (as @ bs)"
  by (simp add: neutral_def)

lemma neutral_leaf: "t = Simple \<or> t = ArraySimple \<Longrightarrow> neutral [mkField n l p i t]"
  by (auto simp: neutral_def mkField_def)

lemma neutral_bracket:
  assumes "neutral body" and "closes s e"
  shows "neutral (mkField (c # path) l p i s # body @ [mkField (c' # path) l' p' i' e])"
  using assms
  by (cases s; cases e) (simp_all add: neutral_def mkField_def)

lemma processValue_neutral:
  "processValue v key parentPath level = Inr ds \<Longrightarrow> neutral ds"
proof (induction v key parentPath level arbitrary: ds rule: processValue.induct)
  case (1 v key parentPath level)
  from "1.prems" show ?case
  proof (cases rule: processValue_shape)
    case (leaf t)
    then show ?thesis by (simp add: neutral_leaf)
  next
    case (loop childKeys body)
    have "neutral body"
    proof (rule forEachFields_combine [OF loop(5)])
      fix childKey ds'
      assume "childKey \<in> set childKeys"
        and "processValue (getMember (firstElement v) childKey) childKey key (level + 1) = Inr ds'"
      with "1.IH"(1) [OF refl refl _ loop(1) _ refl loop(4)] loop(1,2,3)
      show "neutral ds'" by (cases v) auto
    qed (simp_all add: neutral_Nil neutral_append)
    with loop(6) show ?thesis
      by (simp add: neutral_bracket)
  next
    case (object childKeys body)
    have "neutral body"
    proof (rule forEachFields_combine [OF object(6)])
      fix childKey ds'
      assume "childKey \<in> set childKeys"
        and "processValue (getMember v childKey) childKey (currentPathOf parentPath key)
               (level + 1) = Inr ds'"
      with "1.IH"(2) [OF refl refl _ object(3,4,5)] object(1,2)
      show "neutral ds'" by (auto simp: currentPathOf_def)
    qed (simp_all add: neutral_Nil neutral_append)
    with object(7) show ?thesis
      by (simp add: neutral_bracket)
  qed
qed

lemma processModel_neutral: "processModel obj = Inr ds \<Longrightarrow> neutral ds"
  unfolding processModel_def
  by (auto split: sum.splits
      intro: forEachFields_combine [where Q = neutral] processValue_neutral neutral_Nil
        neutral_append)

subsection \<open>Names and placeholders\<close>

lemma keyedFrom_Nil: "keyedFrom level []"
  by (simp add: keyedFrom_def)

lemma keyedFrom_append:
  "keyedFrom level as \<Longrightarrow> keyedFrom level bs \<Longrightarrow> keyedFrom level (as @ bs)"
  by (auto simp: keyedFrom_def)

lemma keyedAt_keyedFrom: "keyedAt parentPath key level ds \<Longrightarrow> keyedFrom level ds"
  by (auto simp: keyedAt_def keyedFrom_def)

lemma placeholderOfKey_mkField:
  "placeholderOfKey
     (mkField (marker t @ currentPathOf parentPath key) l (''{{'' @ marker t @ key @ ''}}'') i t)"
  unfolding placeholderOfKey_def by (auto simp: mkField_def)

lemma keyedAt_leaf:
  "t = Simple \<or> t = ArraySimple \<Longrightarrow>
   keyedAt parentPath key level
     [mkField (currentPathOf parentPath key) l (''{{'' @ key @ ''}}'') level t]"
  using placeholderOfKey_mkField [of t parentPath key l level]
  by (auto simp: keyedAt_def) (simp_all add: mkField_def)

lemma keyedAt_bracket:
  assumes "keyedFrom (level + 1) body" and "marker s = ''#''" and "marker e = ''/''"
  shows "keyedAt parentPath key level
           (mkField (''#'' @ currentPathOf parentPath key) l (''{{#'' @ key @ ''}}'') level s
            # body @
            [mkField (''/'' @ currentPathOf parentPath key) l' (''{{/'' @ key @ ''}}'') level e])"
proof -
  have "placeholderOfKey
          (mkField (''#'' @ currentPathOf parentPath key) l (''{{#'' @ key @ ''}}'') level s)"
    using placeholderOfKey_mkField [of s parentPath key l level] assms(2) by simp
  moreover
  have "placeholderOfKey
          (mkField (''/'' @ currentPathOf parentPath key) l' (''{{/'' @ key @ ''}}'') level e)"
    using placeholderOfKey_mkField [of e parentPath key l' level] assms(3) by simp
  ultimately show ?thesis
    using assms unfolding keyedAt_def keyedFrom_def
    by (auto simp: mkField_def)
qed

lemma processValue_keyedAt:
  "processValue v key parentPath level = Inr ds \<Longrightarrow> keyedAt parentPath key level ds"
proof (induction v key parentPath level arbitrary: ds rule: processValue.induct)
  case (1 v key parentPath level)
  from "1.prems" show ?case
  proof (cases rule: processValue_shape)
    case (leaf t)
    then show ?thesis
      using keyedAt_leaf [where t = t and parentPath = parentPath and key = key
          and l = "indentOf level @ key" and level = level] by simp
  next
    case (loop childKeys body)
    have "keyedFrom (level + 1) body"
    proof (rule forEachFields_combine [OF loop(5)])
      fix childKey ds'
      assume "childKey \<in> set childKeys"
        and "processValue (getMember (firstElement v) childKey) childKey key (level + 1) = Inr ds'"
      with "1.IH"(1) [OF refl refl _ loop(1) _ refl loop(4)] loop(1,2,3)
      have "keyedAt key childKey (level + 1) ds'" by (cases v) auto
      then show "keyedFrom (level + 1) ds'" by (rule keyedAt_keyedFrom)
    qed (simp_all add: keyedFrom_Nil keyedFrom_append)
    then show ?thesis
      unfolding loop(6) by (rule keyedAt_bracket) simp_all
  next
    case (object childKeys body)
    have "keyedFrom (level + 1) body"
    proof (rule forEachFields_combine [OF object(6)])
      fix childKey ds'
      assume "childKey \<in> set childKeys"
        and "processValue (getMember v childKey) childKey (currentPathOf parentPath key)
               (level + 1) = Inr ds'"
      with "1.IH"(2) [OF refl refl _ object(3,4,5)] object(1,2)
      have "keyedAt (currentPathOf parentPath key) childKey (level + 1) ds'"
        by (auto simp: currentPathOf_def)
      then show "keyedFrom (level + 1) ds'" by (rule keyedAt_keyedFrom)
    qed (simp_all add: keyedFrom_Nil keyedFrom_append)
    then show ?thesis
      unfolding object(7) by (rule keyedAt_bracket) simp_all
  qed
qed

lemma keyedAt_keyedTop: "keyedAt [] key 0 ds \<Longrightarrow> keyedTop ds"
  by (auto simp: keyedAt_def keyedTop_def currentPathOf_def)

lemma keyedTop_Nil: "keyedTop []"
  by (simp add: keyedTop_def)

lemma keyedTop_append: "keyedTop as \<Longrightarrow> keyedTop bs \<Longrightarrow> keyedTop (as @ bs)"
  by (auto simp: keyedTop_def)

lemma processModel_keyedTop: "processModel obj = Inr ds \<Longrightarrow> keyedTop ds"
  unfolding processModel_def
  by (auto split: sum.splits
      intro: forEachFields_combine [where Q = keyedTop]
        processValue_keyedAt [THEN keyedAt_keyedTop] keyedTop_Nil keyedTop_append)

subsection \<open>The output as a forest over the data\<close>

lemma forEachFields_outputs:
  "forEachFields f xs = Inr body \<Longrightarrow>
   \<exists>outs. list_all2 (\<lambda>x out. f x = Inr out) xs outs \<and> body = concat outs"
proof (induction xs arbitrary: body)
  case Nil
  then show ?case by simp
next
  case (Cons x xs)
  from Cons.prems obtain ys zs where
    ys: "f x = Inr ys" and zs: "forEachFields f xs = Inr zs" and body: "body = ys @ zs"
    by (auto split: sum.splits)
  from Cons.IH [OF zs] obtain outs where
    "list_all2 (\<lambda>x out. f x = Inr out) xs outs" "zs = concat outs" by blast
  with ys body have "list_all2 (\<lambda>x out. f x = Inr out) (x # xs) (ys # outs) \<and> body = concat (ys # outs)"
    by simp
  then show ?case by blast
qed

lemma list_all2_choose:
  "list_all2 (\<lambda>x y. \<exists>t. y = g t \<and> R x t) xs ys \<Longrightarrow> \<exists>ts. ys = map g ts \<and> list_all2 R xs ts"
proof (induction rule: list_all2_induct)
  case Nil
  then show ?case by simp
next
  case (Cons x xs y ys)
  then obtain t ts where "y = g t" "R x t" "ys = map g ts" "list_all2 R xs ts" by blast
  then have "y # ys = map g (t # ts) \<and> list_all2 R (x # xs) (t # ts)" by simp
  then show ?case by (rule exI)
qed

lemma forEachFields_trees:
  assumes "forEachFields f xs = Inr body"
    and "\<And>x ds. x \<in> set xs \<Longrightarrow> f x = Inr ds \<Longrightarrow> \<exists>t. ds = flatten t \<and> R x t"
  shows "\<exists>ts. body = concat (map flatten ts) \<and> list_all2 R xs ts"
proof -
  from forEachFields_outputs [OF assms(1)] obtain outs where
    outs: "list_all2 (\<lambda>x out. f x = Inr out) xs outs" and body: "body = concat outs" by blast
  from outs have "list_all2 (\<lambda>x out. \<exists>t. out = flatten t \<and> R x t) xs outs"
    by (rule list.rel_mono_strong) (use assms(2) in blast)
  from list_all2_choose [OF this] body show ?thesis by blast
qed

lemma processValue_grown:
  "processValue v key parentPath level = Inr ds \<Longrightarrow>
   \<exists>t. ds = flatten t \<and> grown v key parentPath level t"
proof (induction v key parentPath level arbitrary: ds rule: processValue.induct)
  case (1 v key parentPath level)
  from "1.prems" show ?case
  proof (cases rule: processValue_shape)
    case (leaf t)
    from "1.prems" have "scopeItem v = None \<and> t = (if isArray v then ArraySimple else Simple)"
      using leaf
      by (subst (asm) processValue.simps)
         (auto simp: Let_def scopeItem_def mkField_def split: if_splits sum.splits)
    with leaf(2) have "ds = flatten (Leaf (hd ds)) \<and> grown v key parentPath level (Leaf (hd ds))"
      by simp
    then show ?thesis by blast
  next
    case (loop childKeys body)
    have item: "scopeItem v = Some (firstElement v)"
      using loop(1,2,3) by (simp add: scopeItem_def)
    have "\<exists>ts. body = concat (map flatten ts)
            \<and> list_all2 (\<lambda>k t. grown (getMember (firstElement v) k) k key (level + 1) t) childKeys ts"
    proof (rule forEachFields_trees [OF loop(5)])
      fix childKey ds'
      assume "childKey \<in> set childKeys"
        and "processValue (getMember (firstElement v) childKey) childKey key (level + 1) = Inr ds'"
      with "1.IH"(1) [OF refl refl _ loop(1) _ refl loop(4)] loop(1,2,3)
      show "\<exists>t. ds' = flatten t \<and> grown (getMember (firstElement v) childKey) childKey key (level + 1) t"
        by (cases v) auto
    qed
    then obtain ts where ts: "body = concat (map flatten ts)"
      "list_all2 (\<lambda>k t. grown (getMember (firstElement v) k) k key (level + 1) t) childKeys ts"
      by blast
    let ?s = "mkField (''#'' @ currentPathOf parentPath key)
              (indentOf level @ key @ '' (Loop Start)'') (''{{#'' @ key @ ''}}'') level LoopStart"
    let ?e = "mkField (''/'' @ currentPathOf parentPath key)
               (indentOf level @ key @ '' (Loop End)'') (''{{/'' @ key @ ''}}'') level LoopEnd"
    have "ds = flatten (Scope ?s ts ?e)" using loop(6) ts(1) by simp
    moreover have "grown v key parentPath level (Scope ?s ts ?e)"
      using item loop(1,4) ts(2) by simp
    ultimately show ?thesis by blast
  next
    case (object childKeys body)
    have item: "scopeItem v = Some v"
      using object(1,3,4) by (simp add: scopeItem_def)
    have "\<exists>ts. body = concat (map flatten ts)
            \<and> list_all2 (\<lambda>k t. grown (getMember v k) k (currentPathOf parentPath key) (level + 1) t)
                 childKeys ts"
    proof (rule forEachFields_trees [OF object(6)])
      fix childKey ds'
      assume "childKey \<in> set childKeys"
        and "processValue (getMember v childKey) childKey (currentPathOf parentPath key)
               (level + 1) = Inr ds'"
      with "1.IH"(2) [OF refl refl _ object(3,4,5)] object(1,2)
      show "\<exists>t. ds' = flatten t
              \<and> grown (getMember v childKey) childKey (currentPathOf parentPath key) (level + 1) t"
        by (auto simp: currentPathOf_def)
    qed
    then obtain ts where ts: "body = concat (map flatten ts)"
      "list_all2 (\<lambda>k t. grown (getMember v k) k (currentPathOf parentPath key) (level + 1) t)
         childKeys ts"
      by blast
    let ?s = "mkField (''#'' @ currentPathOf parentPath key)
              (indentOf level @ key @ '' (Object Start)'') (''{{#'' @ key @ ''}}'') level
              ObjectStart"
    let ?e = "mkField (''/'' @ currentPathOf parentPath key)
               (indentOf level @ key @ '' (Object End)'') (''{{/'' @ key @ ''}}'') level
               ObjectEnd"
    have "ds = flatten (Scope ?s ts ?e)" using object(7) ts(1) by simp
    moreover have "grown v key parentPath level (Scope ?s ts ?e)"
      using item object(3,5) ts(2) by simp
    ultimately show ?thesis by blast
  qed
qed

lemma processModel_grown:
  assumes "processModel obj = Inr ds"
  shows "\<exists>keys forest. objectKeys obj = Inr keys
           \<and> list_all2 (\<lambda>k t. grown (getMember obj k) k [] 0 t) keys forest
           \<and> ds = concat (map flatten forest)"
proof -
  from assms obtain keys where keys: "objectKeys obj = Inr keys"
    and each: "forEachFields (\<lambda>key. processValue (getMember obj key) key [] 0) keys = Inr ds"
    by (auto simp: processModel_def split: sum.splits)
  from forEachFields_trees [OF each, where R = "\<lambda>k t. grown (getMember obj k) k [] 0 t"]
    processValue_grown
  obtain ts where "ds = concat (map flatten ts)"
    "list_all2 (\<lambda>k t. grown (getMember obj k) k [] 0 t) keys ts"
    by blast
  with keys show ?thesis by blast
qed

lemma extract_rootItem:
  assumes "extractFieldsFromJson data = Inr ds"
  shows "case rootItem data of None \<Rightarrow> ds = [] | Some root \<Rightarrow> processModel root = Inr ds"
  using assms
  by (auto simp: extractFieldsFromJson_def rootItem_def split: if_splits)

lemma grown_nests: "grown v key parentPath level t \<Longrightarrow> nests v level t"
proof (induction t arbitrary: v key parentPath level)
  case (Leaf d)
  then show ?case by (auto simp: mkField_def)
next
  case (Scope s kids e)
  from Scope.prems obtain item keys where item: "scopeItem v = Some item"
    and keys: "objectKeys item = Inr keys"
    and s: "s = mkField (''#'' @ currentPathOf parentPath key)
                     (indentOf level @ key @ (if isArray v then '' (Loop Start)'' else '' (Object Start)''))
                     (''{{#'' @ key @ ''}}'') level (if isArray v then LoopStart else ObjectStart)"
    and e: "e = mkField (''/'' @ currentPathOf parentPath key)
                     (indentOf level @ key @ (if isArray v then '' (Loop End)'' else '' (Object End)''))
                     (''{{/'' @ key @ ''}}'') level (if isArray v then LoopEnd else ObjectEnd)"
    and kids: "list_all2
                    (\<lambda>k t. grown (getMember item k) k
                              (if isArray v then key else currentPathOf parentPath key) (level + 1) t)
                    keys kids"
    by (auto split: option.splits sum.splits)
  from kids have "list_all2 (\<lambda>k t. nests (getMember item k) (level + 1) t) keys kids"
    by (rule list.rel_mono_strong) (use Scope.IH in blast)
  with item keys s e show ?case
    by (auto simp: mkField_def)
qed

lemma grown_keyedBy: "grown v key parentPath level t \<Longrightarrow> keyedBy v key t"
proof (induction t arbitrary: v key parentPath level)
  case (Leaf d)
  then show ?case by (auto simp: mkField_def wrapsKey_def)
next
  case (Scope s kids e)
  from Scope.prems obtain item keys where item: "scopeItem v = Some item"
    and keys: "objectKeys item = Inr keys"
    and s: "s = mkField (''#'' @ currentPathOf parentPath key)
                     (indentOf level @ key @ (if isArray v then '' (Loop Start)'' else '' (Object Start)''))
                     (''{{#'' @ key @ ''}}'') level (if isArray v then LoopStart else ObjectStart)"
    and e: "e = mkField (''/'' @ currentPathOf parentPath key)
                     (indentOf level @ key @ (if isArray v then '' (Loop End)'' else '' (Object End)''))
                     (''{{/'' @ key @ ''}}'') level (if isArray v then LoopEnd else ObjectEnd)"
    and kids: "list_all2
                    (\<lambda>k t. grown (getMember item k) k
                              (if isArray v then key else currentPathOf parentPath key) (level + 1) t)
                    keys kids"
    by (auto split: option.splits sum.splits)
  from kids have "list_all2 (\<lambda>k t. keyedBy (getMember item k) k t) keys kids"
    by (rule list.rel_mono_strong) (use Scope.IH in blast)
  moreover have "wrapsKey key s" "wrapsKey key e"
    unfolding wrapsKey_def s e by (auto simp: mkField_def)
  ultimately show ?case using item keys s e
    by (auto simp: mkField_def)
qed

text \<open>
  The order matters to \<open>nests\<close>: for \<open>{"b":{"c":1}}\<close>, a sequence that closes the scope
  of \<open>b\<close> before the descriptor of its child is the flattening of no forest that nests
  over the data.
\<close>

lemma nests_rejects_early_close:
  "\<not> (\<exists>forest. list_all2 (\<lambda>k t. nests (getMember (JObj [(''b'', JObj [(''c'', JNum 1)])]) k) 0 t) [''b''] forest
     \<and> [mkField ''#b'' ''b (Object Start)'' ''{{#b}}'' 0 ObjectStart,
         mkField ''/b'' ''b (Object End)'' ''{{/b}}'' 0 ObjectEnd,
         mkField ''b.c'' ''  c'' ''{{c}}'' 1 Simple] = concat (map flatten forest))"
proof
  assume "\<exists>forest. list_all2 (\<lambda>k t. nests (getMember (JObj [(''b'', JObj [(''c'', JNum 1)])]) k) 0 t) [''b''] forest
     \<and> [mkField ''#b'' ''b (Object Start)'' ''{{#b}}'' 0 ObjectStart,
         mkField ''/b'' ''b (Object End)'' ''{{/b}}'' 0 ObjectEnd,
         mkField ''b.c'' ''  c'' ''{{c}}'' 1 Simple] = concat (map flatten forest)"
  then obtain t where n: "nests (JObj [(''c'', JNum 1)]) 0 t"
    and f: "[mkField ''#b'' ''b (Object Start)'' ''{{#b}}'' 0 ObjectStart,
         mkField ''/b'' ''b (Object End)'' ''{{/b}}'' 0 ObjectEnd,
         mkField ''b.c'' ''  c'' ''{{c}}'' 1 Simple] = flatten t"
    by (auto simp: list_all2_Cons1)
  then show False
    by (cases t) (auto simp: mkField_def scopeItem_def)
qed

text \<open>A nested descriptor whose placeholder wraps the dotted name is not keyed by its key.\<close>

lemma keyedBy_rejects_dotted_placeholder:
  "\<not> keyedBy (JStr ''x'') ''city''
       (Leaf (mkField ''address.city'' ''  city'' ''{{address.city}}'' 1 Simple))"
  by (simp add: wrapsKey_def mkField_def)

section \<open>The scan finds only what the grammar allows\<close>

lemma matchesGrammar_braces:
  "inner \<noteq> [] \<Longrightarrow> CHR ''}'' \<notin> set inner \<Longrightarrow> matchesGrammar (''{{'' @ inner @ ''}}'')"
  by (cases inner) (auto simp: matchesGrammar_def)

text \<open>The two predicates say what the grammar says.\<close>

lemma matchesGrammar_iff:
  "matchesGrammar s \<longleftrightarrow>
     (\<exists>inner. s = ''{{'' @ inner @ ''}}'' \<and> inner \<noteq> [] \<and> CHR ''}'' \<notin> set inner)"
proof
  assume m: "matchesGrammar s"
  let ?inner = "take (length s - 4) (drop 2 s)"
  from m have len: "5 \<le> length s" and t: "take 2 s = ''{{''"
    and d: "drop (length s - 2) s = ''}}''" and nb: "CHR ''}'' \<notin> set ?inner"
    by (simp_all add: matchesGrammar_def)
  have "s = take 2 s @ drop 2 s" by simp
  also have "drop 2 s = ?inner @ drop (length s - 4) (drop 2 s)"
    by (rule append_take_drop_id [symmetric])
  also have "drop (length s - 4) (drop 2 s) = drop (length s - 2) s"
  proof -
    from len have "length s - 4 + 2 = length s - 2" by arith
    then show ?thesis by (simp only: drop_drop)
  qed
  finally have "s = ''{{'' @ ?inner @ ''}}''" using t d by simp
  moreover from len have "?inner \<noteq> []" by auto
  ultimately show "\<exists>inner. s = ''{{'' @ inner @ ''}}'' \<and> inner \<noteq> [] \<and> CHR ''}'' \<notin> set inner"
    using nb by blast
next
  assume "\<exists>inner. s = ''{{'' @ inner @ ''}}'' \<and> inner \<noteq> [] \<and> CHR ''}'' \<notin> set inner"
  then show "matchesGrammar s" by (auto simp: matchesGrammar_braces simp del: append.simps)
qed

lemma containsPlaceholder_iff:
  "containsPlaceholder text \<longleftrightarrow>
     (\<exists>pre inner post. text = pre @ (''{{'' @ inner @ ''}}'') @ post
        \<and> inner \<noteq> [] \<and> CHR ''}'' \<notin> set inner)"
proof -
  have "containsPlaceholder text \<longleftrightarrow> (\<exists>s. sublist s text \<and> matchesGrammar s)"
    by (auto simp: containsPlaceholder_def list_ex_iff)
  also have "\<dots> \<longleftrightarrow> (\<exists>pre s post. text = pre @ s @ post \<and> matchesGrammar s)"
    unfolding sublist_def by blast
  finally show ?thesis
    unfolding matchesGrammar_iff by blast
qed

lemma matchAt_Some:
  assumes "matchAt t = Some (inner, rest)"
  shows "t = ''{{'' @ inner @ ''}}'' @ rest" and "inner \<noteq> []" and "CHR ''}'' \<notin> set inner"
proof -
  let ?P = "\<lambda>c. c \<noteq> CHR ''}''"
  from assms have t2: "take 2 t = ''{{''"
    and inner: "inner = takeWhile ?P (drop 2 t)"
    and ne: "inner \<noteq> []"
    and a2: "take 2 (dropWhile ?P (drop 2 t)) = ''}}''"
    and rest: "rest = drop 2 (dropWhile ?P (drop 2 t))"
    by (auto simp: matchAt_def Let_def split: if_splits)
  have "t = take 2 t @ drop 2 t" by simp
  also have "drop 2 t = takeWhile ?P (drop 2 t) @ dropWhile ?P (drop 2 t)" by simp
  also have "dropWhile ?P (drop 2 t) =
      take 2 (dropWhile ?P (drop 2 t)) @ drop 2 (dropWhile ?P (drop 2 t))"
    by simp
  finally show "t = ''{{'' @ inner @ ''}}'' @ rest"
    using t2 inner a2 rest by simp
  show "inner \<noteq> []" by (rule ne)
  show "CHR ''}'' \<notin> set inner"
    unfolding inner by (auto dest: set_takeWhileD)
qed

lemma scanPlaceholders_sound:
  "scanPlaceholders pos t \<noteq> [] \<Longrightarrow> containsPlaceholder t"
proof (induction pos t rule: scanPlaceholders.induct)
  case (1 pos t)
  show ?case
  proof (cases "matchAt t")
    case None
    with "1.prems" have ne: "t \<noteq> []" and "scanPlaceholders (pos + 1) (tl t) \<noteq> []"
      by (auto simp: scanPlaceholders.simps [of pos t] split: if_splits)
    with "1.IH" None have "containsPlaceholder (tl t)" by auto
    then obtain s where "sublist s (tl t)" "matchesGrammar s"
      by (auto simp: containsPlaceholder_def list_ex_iff)
    moreover from ne have "t = hd t # tl t" by simp
    ultimately have "sublist s t"
      by (metis sublist_Cons_right)
    with \<open>matchesGrammar s\<close> show ?thesis
      by (auto simp: containsPlaceholder_def list_ex_iff)
  next
    case (Some m)
    obtain inner rest where m: "m = (inner, rest)" by (cases m)
    from matchAt_Some [OF Some [unfolded m]]
    have "t = (''{{'' @ inner @ ''}}'') @ rest" "matchesGrammar (''{{'' @ inner @ ''}}'')"
      by (simp_all add: matchesGrammar_braces del: append.simps)
    then have "sublist (''{{'' @ inner @ ''}}'') t"
      by (metis sublist_appendI append_Nil)
    with \<open>matchesGrammar (''{{'' @ inner @ ''}}'')\<close> show ?thesis
      by (auto simp: containsPlaceholder_def list_ex_iff)
  qed
qed

section \<open>Steps of the validator\<close>

lemma scan_open_a_close_b:
  "scanPlaceholders 0 ''{{#a}}{{/b}}'' =
     [\<lparr>full = ''{{#a}}'', field = ''#a'', position = 0\<rparr>,
      \<lparr>full = ''{{/b}}'', field = ''/b'', position = 6\<rparr>]"
  by code_simp

lemma getNestedValue_total: "\<not> nullish obj \<Longrightarrow> \<exists>v. getNestedValue obj path = Inr v"
  by (simp add: getNestedValue_def getProp_def Let_def)

lemma openMarker_pushes:
  assumes "openMarker s fld = Inr s'"
  shows "\<exists>ctx. contextStack s' = contextStack s @ [ctx]"
    and "loopStack s' = loopStack s @ [drop 1 fld]"
  using assms
  by (auto simp: openMarker_def Let_def pushScope_def addIssue_def addWarning_def
      split: sum.splits if_splits)

section \<open>The claims\<close>

text \<open>
  C1. The claim: for every text and every data value \<open>validateTemplate\<close> returns a
  report and never throws. The branch for a regular field skips an \<open>undefined\<close> context,
  but the branch for \<open>{{#name}}\<close> passes the context to \<open>getNestedValue\<close> unguarded.
  After \<open>{{#a}}\<close> on data without \<open>a\<close> the context is \<open>undefined\<close>, and the next
  \<open>{{#b}}\<close> throws a TypeError.
\<close>

theorem C1_nested_open_marker_throws:
  "validateTemplate ''{{#a}}{{#b}}'' (JObj []) = Inl TypeError"
  by code_simp

text \<open>
  C2. Every descriptor sequence that \<open>extractFieldsFromJson\<close> produces is well nested.
  The stack-based bracket matcher, started on the empty stack, never underflows, finds at
  every end descriptor the start descriptor of the same kind and path on top of its
  stack, and ends with the empty stack. And the sequence is the flattening of a forest
  that follows the data, one tree for each top-level key in order: every start descriptor
  is followed by the descriptors of all descendants of its value, one subtree for each
  child key, and then by the one end descriptor of the same kind, path and indent level.
\<close>

theorem C2_descriptors_well_nested:
  assumes "extractFieldsFromJson data = Inr ds"
  shows "bracketMatcher [] ds
         \<and> (case rootItem data of
              None \<Rightarrow> ds = []
            | Some root \<Rightarrow>
                \<exists>keys forest.
                  objectKeys root = Inr keys
                  \<and> list_all2 (\<lambda>k t. nests (getMember root k) 0 t) keys forest
                  \<and> ds = concat (map flatten forest))"
proof (rule conjI)
  have "neutral ds"
    using assms
    by (auto simp: extractFieldsFromJson_def neutral_Nil split: if_splits
        intro: processModel_neutral)
  then have "bracketMatcher [] (ds @ []) = bracketMatcher [] []"
    unfolding neutral_def by blast
  then show "bracketMatcher [] ds" by simp
next
  show "case rootItem data of
          None \<Rightarrow> ds = []
        | Some root \<Rightarrow>
            \<exists>keys forest.
              objectKeys root = Inr keys
              \<and> list_all2 (\<lambda>k t. nests (getMember root k) 0 t) keys forest
              \<and> ds = concat (map flatten forest)"
  proof (cases "rootItem data")
    case None
    with extract_rootItem [OF assms] show ?thesis by simp
  next
    case (Some root)
    with extract_rootItem [OF assms] have "processModel root = Inr ds" by simp
    from processModel_grown [OF this] obtain keys forest where
      keys: "objectKeys root = Inr keys"
      and g: "list_all2 (\<lambda>k t. grown (getMember root k) k [] 0 t) keys forest"
      and ds: "ds = concat (map flatten forest)"
      by blast
    from g have "list_all2 (\<lambda>k t. nests (getMember root k) 0 t) keys forest"
      by (rule list.rel_mono_strong) (rule grown_nests)
    with keys ds Some show ?thesis by auto
  qed
qed

theorem C2_descriptors_well_nested_witness:
  "extractFieldsFromJson
     (JObj [(''a'', JStr ''x''), (''items'', JArr [JObj [(''n'', JNum 1)]])]) =
   Inr [mkField ''a'' ''a'' ''{{a}}'' 0 Simple,
        mkField ''#items'' ''items (Loop Start)'' ''{{#items}}'' 0 LoopStart,
        mkField ''items.n'' ''  n'' ''{{n}}'' 1 Simple,
        mkField ''/items'' ''items (Loop End)'' ''{{/items}}'' 0 LoopEnd]
   \<and> (bracketMatcher []
         [mkField ''a'' ''a'' ''{{a}}'' 0 Simple,
          mkField ''#items'' ''items (Loop Start)'' ''{{#items}}'' 0 LoopStart,
          mkField ''items.n'' ''  n'' ''{{n}}'' 1 Simple,
          mkField ''/items'' ''items (Loop End)'' ''{{/items}}'' 0 LoopEnd]
       \<and> (case rootItem (JObj [(''a'', JStr ''x''), (''items'', JArr [JObj [(''n'', JNum 1)]])]) of
            None \<Rightarrow>
              [mkField ''a'' ''a'' ''{{a}}'' 0 Simple,
               mkField ''#items'' ''items (Loop Start)'' ''{{#items}}'' 0 LoopStart,
               mkField ''items.n'' ''  n'' ''{{n}}'' 1 Simple,
               mkField ''/items'' ''items (Loop End)'' ''{{/items}}'' 0 LoopEnd] = []
          | Some root \<Rightarrow>
              \<exists>keys forest.
                objectKeys root = Inr keys
                \<and> list_all2 (\<lambda>k t. nests (getMember root k) 0 t) keys forest
                \<and> [mkField ''a'' ''a'' ''{{a}}'' 0 Simple,
                    mkField ''#items'' ''items (Loop Start)'' ''{{#items}}'' 0 LoopStart,
                    mkField ''items.n'' ''  n'' ''{{n}}'' 1 Simple,
                    mkField ''/items'' ''items (Loop End)'' ''{{/items}}'' 0 LoopEnd]
                   = concat (map flatten forest)))
   \<and> nests (JArr [JObj [(''n'', JNum 1)]]) 0
       (Scope (mkField ''#items'' ''items (Loop Start)'' ''{{#items}}'' 0 LoopStart)
          [Leaf (mkField ''items.n'' ''  n'' ''{{n}}'' 1 Simple)]
          (mkField ''/items'' ''items (Loop End)'' ''{{/items}}'' 0 LoopEnd))"
proof -
  have h: "extractFieldsFromJson
             (JObj [(''a'', JStr ''x''), (''items'', JArr [JObj [(''n'', JNum 1)]])]) =
           Inr [mkField ''a'' ''a'' ''{{a}}'' 0 Simple,
                mkField ''#items'' ''items (Loop Start)'' ''{{#items}}'' 0 LoopStart,
                mkField ''items.n'' ''  n'' ''{{n}}'' 1 Simple,
                mkField ''/items'' ''items (Loop End)'' ''{{/items}}'' 0 LoopEnd]"
    by code_simp
  have t: "nests (JArr [JObj [(''n'', JNum 1)]]) 0
       (Scope (mkField ''#items'' ''items (Loop Start)'' ''{{#items}}'' 0 LoopStart)
          [Leaf (mkField ''items.n'' ''  n'' ''{{n}}'' 1 Simple)]
          (mkField ''/items'' ''items (Loop End)'' ''{{/items}}'' 0 LoopEnd))"
    by code_simp
  show ?thesis
    by (rule conjI [OF h conjI [OF C2_descriptors_well_nested [OF h] t]])
qed

text \<open>
  C3. The claim: every descriptor's name is the full dotted path from the root, also
  inside a loop body at any depth. The object branch passes \<open>currentPath\<close> to its
  children, the loop branch passes \<open>key\<close>: for \<open>{"a":{"items":[{"n":1}]}}\<close> the field
  \<open>n\<close> of the loop body, at path \<open>a.items.n\<close>, gets the name \<open>items.n\<close>.
\<close>

theorem C3_loop_body_name_drops_parent:
  "map_sum id (map name)
     (extractFieldsFromJson (JObj [(''a'', JObj [(''items'', JArr [JObj [(''n'', JNum 1)]])])])) =
   Inr [''#a'', ''#a.items'', ''items.n'', ''/a.items'', ''/a'']"
  by code_simp

text \<open>
  C4. The claim: the placeholder of every descriptor is \<open>{{\<close>, its name, \<open>}}\<close>. Every
  branch of \<open>processValue\<close> builds the placeholder from \<open>key\<close> and the name from
  \<open>currentPath\<close>, so the two differ below the top level: for
  \<open>{"address":{"city":"x"}}\<close> the name is \<open>address.city\<close> and the placeholder
  \<open>{{city}}\<close>.
\<close>

theorem C4_nested_placeholder_counterexample:
  "extractFieldsFromJson (JObj [(''address'', JObj [(''city'', JStr ''x'')])]) =
   Inr [mkField ''#address'' ''address (Object Start)'' ''{{#address}}'' 0 ObjectStart,
        mkField ''address.city'' ''  city'' ''{{city}}'' 1 Simple,
        mkField ''/address'' ''address (Object End)'' ''{{/address}}'' 0 ObjectEnd]
   \<and> name (mkField ''address.city'' ''  city'' ''{{city}}'' 1 Simple) = ''address.city''
   \<and> placeholder (mkField ''address.city'' ''  city'' ''{{city}}'' 1 Simple) = ''{{city}}''
   \<and> placeholder (mkField ''address.city'' ''  city'' ''{{city}}'' 1 Simple)
       \<noteq> ''{{'' @ name (mkField ''address.city'' ''  city'' ''{{city}}'' 1 Simple) @ ''}}''"
  by code_simp

text \<open>
  C4, amended. The sequence is the flattening of a forest that follows the data, and in
  it the descriptors made for the value stored under a key \<open>k\<close>, at any depth, have the
  placeholder \<open>{{k}}\<close>, or \<open>{{#k}}\<close> and \<open>{{/k}}\<close> for the start and end of a scope:
  \<open>{{\<close>, the marker of the descriptor's kind, the value's own key, \<open>}}\<close>. The name is
  that marker followed by the key, or by a parent path, a dot and the key. For every
  descriptor at indent level 0 the placeholder is \<open>{{\<close>, its name, \<open>}}\<close>.
\<close>

theorem C4_placeholder_wraps_key:
  assumes "extractFieldsFromJson data = Inr ds"
  shows "(case rootItem data of
            None \<Rightarrow> ds = []
          | Some root \<Rightarrow>
              \<exists>keys forest.
                objectKeys root = Inr keys
                \<and> list_all2 (\<lambda>k t. keyedBy (getMember root k) k t) keys forest
                \<and> ds = concat (map flatten forest))
         \<and> (\<forall>d \<in> set ds. indentLevel d = 0 \<longrightarrow> placeholder d = ''{{'' @ name d @ ''}}'')"
proof (rule conjI)
  show "case rootItem data of
          None \<Rightarrow> ds = []
        | Some root \<Rightarrow>
            \<exists>keys forest.
              objectKeys root = Inr keys
              \<and> list_all2 (\<lambda>k t. keyedBy (getMember root k) k t) keys forest
              \<and> ds = concat (map flatten forest)"
  proof (cases "rootItem data")
    case None
    with extract_rootItem [OF assms] show ?thesis by simp
  next
    case (Some root)
    with extract_rootItem [OF assms] have "processModel root = Inr ds" by simp
    from processModel_grown [OF this] obtain keys forest where
      keys: "objectKeys root = Inr keys"
      and g: "list_all2 (\<lambda>k t. grown (getMember root k) k [] 0 t) keys forest"
      and ds: "ds = concat (map flatten forest)"
      by blast
    from g have "list_all2 (\<lambda>k t. keyedBy (getMember root k) k t) keys forest"
      by (rule list.rel_mono_strong) (rule grown_keyedBy)
    with keys ds Some show ?thesis by auto
  qed
next
  have "keyedTop ds"
    using assms
    by (auto simp: extractFieldsFromJson_def keyedTop_Nil split: if_splits
        intro: processModel_keyedTop)
  then show "\<forall>d \<in> set ds. indentLevel d = 0 \<longrightarrow> placeholder d = ''{{'' @ name d @ ''}}''"
    unfolding keyedTop_def by blast
qed

theorem C4_placeholder_wraps_key_witness:
  "extractFieldsFromJson (JObj [(''address'', JObj [(''city'', JStr ''x'')])]) =
   Inr [mkField ''#address'' ''address (Object Start)'' ''{{#address}}'' 0 ObjectStart,
        mkField ''address.city'' ''  city'' ''{{city}}'' 1 Simple,
        mkField ''/address'' ''address (Object End)'' ''{{/address}}'' 0 ObjectEnd]
   \<and> (case rootItem (JObj [(''address'', JObj [(''city'', JStr ''x'')])]) of
         None \<Rightarrow>
           [mkField ''#address'' ''address (Object Start)'' ''{{#address}}'' 0 ObjectStart,
            mkField ''address.city'' ''  city'' ''{{city}}'' 1 Simple,
            mkField ''/address'' ''address (Object End)'' ''{{/address}}'' 0 ObjectEnd] = []
       | Some root \<Rightarrow>
           \<exists>keys forest.
             objectKeys root = Inr keys
             \<and> list_all2 (\<lambda>k t. keyedBy (getMember root k) k t) keys forest
             \<and> [mkField ''#address'' ''address (Object Start)'' ''{{#address}}'' 0 ObjectStart,
                 mkField ''address.city'' ''  city'' ''{{city}}'' 1 Simple,
                 mkField ''/address'' ''address (Object End)'' ''{{/address}}'' 0 ObjectEnd]
                = concat (map flatten forest))
   \<and> keyedBy (JStr ''x'') ''city'' (Leaf (mkField ''address.city'' ''  city'' ''{{city}}'' 1 Simple))
   \<and> placeholder (mkField ''address.city'' ''  city'' ''{{city}}'' 1 Simple) = ''{{city}}''
   \<and> placeholder (mkField ''#address'' ''address (Object Start)'' ''{{#address}}'' 0 ObjectStart)
       = ''{{'' @ name (mkField ''#address'' ''address (Object Start)'' ''{{#address}}'' 0 ObjectStart)
         @ ''}}''"
proof -
  let ?s = "mkField ''#address'' ''address (Object Start)'' ''{{#address}}'' 0 ObjectStart"
  let ?c = "mkField ''address.city'' ''  city'' ''{{city}}'' 1 Simple"
  let ?e = "mkField ''/address'' ''address (Object End)'' ''{{/address}}'' 0 ObjectEnd"
  have h: "extractFieldsFromJson (JObj [(''address'', JObj [(''city'', JStr ''x'')])])
             = Inr [?s, ?c, ?e]"
    by code_simp
  note inst = C4_placeholder_wraps_key [OF h]
  have a1: "name ?c = marker (type ?c) @ currentPathOf ''address'' ''city''"
    by (simp add: mkField_def currentPathOf_def)
  have a2: "scopeItem (JStr ''x'') = None"
    by (simp add: scopeItem_def)
  have a3: "marker (type ?c) = []"
    by (simp add: mkField_def)
  have a4: "placeholder ?c = ''{{'' @ marker (type ?c) @ ''city'' @ ''}}''"
    by (simp add: mkField_def)
  have k: "keyedBy (JStr ''x'') ''city'' (Leaf ?c)"
    unfolding keyedBy.simps wrapsKey_def
    by (intro conjI exI [of _ "''address''"] a1 a2 a3 a4)
  have p: "placeholder ?c = ''{{city}}''"
    by (simp add: mkField_def)
  have m: "?s \<in> set [?s, ?c, ?e]"
    by (rule list.set_intros(1))
  have l: "indentLevel ?s = 0"
    by (simp add: mkField_def)
  have top: "placeholder ?s = ''{{'' @ name ?s @ ''}}''"
    by (rule mp [OF bspec [OF inst [THEN conjunct2] m] l])
  show ?thesis
    by (rule conjI [OF h conjI [OF inst [THEN conjunct1] conjI [OF k conjI [OF p top]]]])
qed

text \<open>
  C5. The claim: whenever \<open>data.model\<close> is an object, \<open>getNestedValue(data, x)\<close> equals
  \<open>getNestedValue(data.model, x)\<close>. The function unwraps a \<open>model\<close> property on every
  call, so the second call unwraps again when \<open>data.model\<close> has an object \<open>model\<close> of
  its own: for \<open>{"model":{"model":{"x":1},"x":2}}\<close> the first call gives 2 and the
  second gives 1.
\<close>

theorem C5_double_unwrap_counterexample:
  "getProp (JObj [(''model'', JObj [(''model'', JObj [(''x'', JNum 1)]), (''x'', JNum 2)])])
     ''model'' = Inr (JObj [(''model'', JObj [(''x'', JNum 1)]), (''x'', JNum 2)])
   \<and> typeof (JObj [(''model'', JObj [(''x'', JNum 1)]), (''x'', JNum 2)]) = ''object''
   \<and> getNestedValue
       (JObj [(''model'', JObj [(''model'', JObj [(''x'', JNum 1)]), (''x'', JNum 2)])]) ''x''
       = Inr (JNum 2)
   \<and> getNestedValue (JObj [(''model'', JObj [(''x'', JNum 1)]), (''x'', JNum 2)]) ''x''
       = Inr (JNum 1)
   \<and> getNestedValue
       (JObj [(''model'', JObj [(''model'', JObj [(''x'', JNum 1)]), (''x'', JNum 2)])]) ''x''
       \<noteq> getNestedValue (JObj [(''model'', JObj [(''x'', JNum 1)]), (''x'', JNum 2)]) ''x''"
  by code_simp

text \<open>
  C5, amended. Whenever \<open>data.model\<close> is an object (or an array: the code tests
  truthiness and \<open>typeof\<close>) that has no \<open>model\<close> property passing the same test, then
  for every path \<open>x\<close>, \<open>getNestedValue(data, x)\<close> equals
  \<open>getNestedValue(data.model, x)\<close>.
\<close>

theorem C5_unwrap_transparent:
  assumes "getProp data ''model'' = Inr m"
    and "truthy m" and "typeof m = ''object''"
    and "\<not> (truthy (getMember m ''model'') \<and> typeof (getMember m ''model'') = ''object'')"
  shows "getNestedValue data x = getNestedValue m x"
proof -
  from assms(2,3) have "\<not> nullish m" by (cases m) auto
  with assms show ?thesis
    by (auto simp: getNestedValue_def getProp_def split: if_splits)
qed

theorem C5_unwrap_transparent_witness:
  "getProp (JObj [(''model'', JObj [(''x'', JNum 1)]), (''x'', JNum 2)]) ''model''
     = Inr (JObj [(''x'', JNum 1)])
   \<and> getNestedValue (JObj [(''model'', JObj [(''x'', JNum 1)]), (''x'', JNum 2)]) ''x''
     = getNestedValue (JObj [(''x'', JNum 1)]) ''x''"
proof -
  have h: "getProp (JObj [(''model'', JObj [(''x'', JNum 1)]), (''x'', JNum 2)]) ''model''
             = Inr (JObj [(''x'', JNum 1)])"
    by (simp add: getProp_def)
  have "getNestedValue (JObj [(''model'', JObj [(''x'', JNum 1)]), (''x'', JNum 2)]) ''x''
          = getNestedValue (JObj [(''x'', JNum 1)]) ''x''"
    by (rule C5_unwrap_transparent [OF h]) simp_all
  with h show ?thesis by (rule conjI)
qed

text \<open>
  C6. For every data value that is an object or an array, on the text
  \<open>{{#a}}{{/b}}\<close>: the scan finds the two markers; after \<open>{{#a}}\<close> the loop-name stack
  is \<open>[a]\<close>; the step for \<open>{{/b}}\<close> appends the warning about a close marker that does
  not match \<open>{{#a}}\<close> and leaves both stacks as they were; and the report ends with
  that warning followed by the warning that \<open>a\<close> was started but never closed.
\<close>

theorem C6_mismatched_close_marker:
  assumes "typeof data = ''object''" and "data \<noteq> JNull"
  shows "\<exists>s1 s2.
           scanPlaceholders 0 ''{{#a}}{{/b}}'' =
             [\<lparr>full = ''{{#a}}'', field = ''#a'', position = 0\<rparr>,
              \<lparr>full = ''{{/b}}'', field = ''/b'', position = 6\<rparr>]
         \<and> stepPlaceholder data (initialState data)
               \<lparr>full = ''{{#a}}'', field = ''#a'', position = 0\<rparr> = Inr s1
         \<and> loopStack s1 = [''a'']
         \<and> stepPlaceholder data s1 \<lparr>full = ''{{/b}}'', field = ''/b'', position = 6\<rparr> = Inr s2
         \<and> warnings s2 = warnings s1 @ [mismatchWarning ''/b'' ''a'']
         \<and> contextStack s2 = contextStack s1
         \<and> loopStack s2 = loopStack s1
         \<and> validateTemplate ''{{#a}}{{/b}}'' data =
             Inr \<lparr>issues = issues s2, warnings = warnings s2 @ [unclosedWarning ''a''],
                  placeholderCount = 2\<rparr>"
proof -
  let ?p1 = "\<lparr>full = ''{{#a}}'', field = ''#a'', position = 0\<rparr>"
  let ?p2 = "\<lparr>full = ''{{/b}}'', field = ''/b'', position = 6\<rparr>"
  from assms have "\<not> nullish data" by (cases data) auto
  then obtain v where v: "getNestedValue data ''a'' = Inr v"
    using getNestedValue_total by blast
  have "openMarker (initialState data) ''#a'' \<noteq> Inl e" for e
    using v
    by (auto simp: openMarker_def Let_def initialState_def topContext_def split: if_splits)
  then obtain s1 where s1: "openMarker (initialState data) ''#a'' = Inr s1"
    by (cases "openMarker (initialState data) ''#a''") auto
  have step1: "stepPlaceholder data (initialState data) ?p1 = Inr s1"
    using s1 by (simp add: stepPlaceholder_def startsWith_def)
  from openMarker_pushes(2) [OF s1] have ls: "loopStack s1 = [''a'']"
    by (simp add: initialState_def)
  define s2 where "s2 = addWarning (mismatchWarning ''/b'' ''a'') s1"
  have step2: "stepPlaceholder data s1 ?p2 = Inr s2"
    using ls by (simp add: stepPlaceholder_def startsWith_def closeMarker_def s2_def)
  have w2: "warnings s2 = warnings s1 @ [mismatchWarning ''/b'' ''a'']"
    and c2: "contextStack s2 = contextStack s1" and l2: "loopStack s2 = loopStack s1"
    by (simp_all add: s2_def addWarning_def)
  have "validateTemplate ''{{#a}}{{/b}}'' data =
          Inr \<lparr>issues = issues s2, warnings = warnings s2 @ [unclosedWarning ''a''],
               placeholderCount = 2\<rparr>"
    using step1 step2 l2 ls
    by (simp add: validateTemplate_def scan_open_a_close_b)
  with step1 step2 ls w2 c2 l2 scan_open_a_close_b show ?thesis
    by blast
qed

theorem C6_mismatched_close_marker_witness:
  "typeof (JObj []) = ''object'' \<and> JObj [] \<noteq> JNull
   \<and> (\<exists>s1 s2.
           scanPlaceholders 0 ''{{#a}}{{/b}}'' =
             [\<lparr>full = ''{{#a}}'', field = ''#a'', position = 0\<rparr>,
              \<lparr>full = ''{{/b}}'', field = ''/b'', position = 6\<rparr>]
         \<and> stepPlaceholder (JObj []) (initialState (JObj []))
               \<lparr>full = ''{{#a}}'', field = ''#a'', position = 0\<rparr> = Inr s1
         \<and> loopStack s1 = [''a'']
         \<and> stepPlaceholder (JObj []) s1 \<lparr>full = ''{{/b}}'', field = ''/b'', position = 6\<rparr>
             = Inr s2
         \<and> warnings s2 = warnings s1 @ [mismatchWarning ''/b'' ''a'']
         \<and> contextStack s2 = contextStack s1
         \<and> loopStack s2 = loopStack s1
         \<and> validateTemplate ''{{#a}}{{/b}}'' (JObj []) =
             Inr \<lparr>issues = issues s2, warnings = warnings s2 @ [unclosedWarning ''a''],
                  placeholderCount = 2\<rparr>)"
proof -
  have h1: "typeof (JObj []) = ''object''" by simp
  have h2: "JObj [] \<noteq> JNull" by simp
  show ?thesis
    by (rule conjI [OF h1 conjI [OF h2 C6_mismatched_close_marker [OF h1 h2]]])
qed

text \<open>
  C7. For every data value, on a text with no substring of the form \<open>{{\<close>, one or more
  characters other than \<open>}\<close>, \<open>}}\<close>, the report has no issue, exactly one warning, and
  the count 0. The data value is never read: the result is the same for a data value,
  such as \<open>null\<close>, on which the context-stack scan would throw.
\<close>

theorem C7_no_placeholders:
  assumes "\<not> containsPlaceholder documentText"
  shows "validateTemplate documentText data =
           Inr \<lparr>issues = [], warnings = [noPlaceholdersWarning], placeholderCount = 0\<rparr>"
proof -
  from assms have "scanPlaceholders 0 documentText = []"
    using scanPlaceholders_sound by blast
  then show ?thesis by (simp add: validateTemplate_def)
qed

theorem C7_no_placeholders_witness:
  "\<not> containsPlaceholder ''Dear {name}, {{}} }}''
   \<and> validateTemplate ''Dear {name}, {{}} }}'' JNull =
       Inr \<lparr>issues = [], warnings = [noPlaceholdersWarning], placeholderCount = 0\<rparr>"
proof -
  have h: "\<not> containsPlaceholder ''Dear {name}, {{}} }}''"
    by code_simp
  show ?thesis
    by (rule conjI [OF h C7_no_placeholders [OF h]])
qed

text \<open>
  C8. On the text \<open>{{foo}}\<close> and the data \<open>{}\<close> the report has exactly one issue, which
  names \<open>foo\<close>, no warning, and counts one placeholder.
\<close>

theorem C8_missing_root_field:
  \<open>validateTemplate ''{{foo}}'' (JObj []) =
     Inr \<lparr>issues = [''Placeholder "{{foo}}" has no corresponding data. Please ensure your data source includes a "foo" field.''],
          warnings = [], placeholderCount = 1\<rparr>\<close>
  by code_simp

text \<open>
  C9. On the text \<open>{{#items}}{{name}}{{/items}}\<close> and the data
  \<open>{"items":[{"name":"x"}]}\<close> the report has no issue, no warning, and counts three
  placeholders.
\<close>

theorem C9_loop_over_items:
  "validateTemplate ''{{#items}}{{name}}{{/items}}''
     (JObj [(''items'', JArr [JObj [(''name'', JStr ''x'')]])]) =
   Inr \<lparr>issues = [], warnings = [], placeholderCount = 3\<rparr>"
  by code_simp

text \<open>
  C10. The claim: a root that is a scalar, an empty array, or an array of scalars,
  \<open>null\<close> included, gives the empty sequence. The root test is
  \<open>typeof data[0] === "object"\<close>, true of \<open>null\<close>, so \<open>[null]\<close> reaches
  \<open>Object.keys(null)\<close>, which throws a TypeError.
\<close>

theorem C10_root_array_of_null_throws:
  "extractFieldsFromJson (JArr [JNull]) = Inl TypeError"
  by code_simp

end
